theory Spec2Isabelle
  imports Complex_Main "HOL-Library.Sublist"
begin

section \<open>Tables\<close>

text \<open>
  A pyarrow table is modelled by what the resize transform observes of it: its schema and
  its rows in order. Python integers are \<open>int\<close>. The byte limit is a Python float
  (\<open>pyfloat\<close> below, with the infinities and not-a-number); the running size is a sum of
  byte counts and is taken as an exact real.
\<close>

record ('s, 'r) table =
  schema :: 's
  rows :: "'r list"

definition num_rows :: "('s, 'r) table \<Rightarrow> int" where
  "num_rows t = int (length (rows t))"

text \<open>
  \<open>table.slice(offset=o, length=l)\<close>: the rows \<open>o, ..., o + l - 1\<close> under the same schema,
  cut at the end of the table. The transform only slices at offsets within the table.
\<close>

definition slice :: "('s, 'r) table \<Rightarrow> int \<Rightarrow> int \<Rightarrow> ('s, 'r) table" where
  "slice t offset len = t\<lparr>rows := take (nat len) (drop (nat offset) (rows t))\<rparr>"

text \<open>
  \<open>pyarrow.concat_tables([a, b])\<close> with the default options: the schemas must be the same,
  otherwise the call raises (\<open>None\<close>).
\<close>

definition concat_tables :: "('s, 'r) table \<Rightarrow> ('s, 'r) table \<Rightarrow> ('s, 'r) table option" where
  "concat_tables a b =
     (if schema a = schema b then Some (a\<lparr>rows := rows a @ rows b\<rparr>) else None)"

text \<open>\<open>range(n)\<close>\<close>

definition py_range :: "int \<Rightarrow> int list" where
  "py_range n = map int [0..<nat n]"

section \<open>Errors and configuration\<close>

datatype error = ValueError string | TypeError

type_synonym stats = "string \<rightharpoonup> real"

text \<open>
  Python floats, as far as the limits need them: a finite value (taken as an exact real),
  the two infinities, and not-a-number, which \<open>float('nan')\<close> and the \<open>type=float\<close> of the
  argument parser produce. Every comparison with not-a-number is false. \<open>float_mult c x\<close> is
  the product of a finite number \<open>c\<close> and a float.
\<close>

datatype pyfloat = Finite real | PosInf | NegInf | NaN

fun float_lt :: "pyfloat \<Rightarrow> pyfloat \<Rightarrow> bool" where
  "float_lt (Finite a) (Finite b) = (a < b)"
| "float_lt (Finite a) PosInf = True"
| "float_lt NegInf (Finite b) = True"
| "float_lt NegInf PosInf = True"
| "float_lt a b = False"

fun float_le :: "pyfloat \<Rightarrow> pyfloat \<Rightarrow> bool" where
  "float_le (Finite a) (Finite b) = (a \<le> b)"
| "float_le (Finite a) PosInf = True"
| "float_le NegInf (Finite b) = True"
| "float_le NegInf PosInf = True"
| "float_le NegInf NegInf = True"
| "float_le PosInf PosInf = True"
| "float_le a b = False"

fun float_mult :: "real \<Rightarrow> pyfloat \<Rightarrow> pyfloat" where
  "float_mult c (Finite x) = Finite (c * x)"
| "float_mult c PosInf = (if 0 < c then PosInf else if c < 0 then NegInf else NaN)"
| "float_mult c NegInf = (if 0 < c then NegInf else if c < 0 then PosInf else NaN)"
| "float_mult c NaN = NaN"

text \<open>
  The configuration dictionary, restricted to the three keys the transform reads; a key
  that is absent is \<open>None\<close>.
\<close>

record config =
  cfg_max_rows_per_table :: "int option"
  cfg_max_mbytes_per_table :: "pyfloat option"
  cfg_size_type :: "string option"

definition size_type_disk :: string where
  "size_type_disk = ''disk''"

definition size_type_memory :: string where
  "size_type_memory = ''memory''"

definition size_type_default :: string where
  "size_type_default = size_type_disk"

text \<open>Python's \<open>a in b\<close> on strings: \<open>a\<close> occurs in \<open>b\<close> as a contiguous substring.\<close>

fun str_in :: "string \<Rightarrow> string \<Rightarrow> bool" where
  "str_in a [] = (a = [])"
| "str_in a (c # cs) = (prefix a (c # cs) \<or> str_in a cs)"

text \<open>\<open>d.get(key, default)\<close>\<close>

definition get_default :: "'a option \<Rightarrow> 'a \<Rightarrow> 'a" where
  "get_default v d = (case v of None \<Rightarrow> d | Some x \<Rightarrow> x)"

section \<open>The resize transform\<close>

record ('s, 'r) resize_transform =
  max_rows_per_table :: int
  max_bytes_per_table :: pyfloat
  buffer :: "('s, 'r) table option"

text \<open>
  \<open>ResizeTransform.__init__\<close>. The constants \<open>MB\<close> and \<open>LOCAL_TO_DISK\<close> come from
  \<open>data_processing.utils\<close> and are parameters here.
\<close>

definition init :: "real \<Rightarrow> real \<Rightarrow> config \<Rightarrow> error + ('s, 'r) resize_transform" where
  "init MB LOCAL_TO_DISK config =
     (let max_rows = get_default (cfg_max_rows_per_table config) 0;
          max_bytes = float_mult MB (get_default (cfg_max_mbytes_per_table config) (Finite 0));
          disk_memory = get_default (cfg_size_type config) size_type_default;
          max_bytes = (if str_in size_type_default disk_memory
                       then float_mult LOCAL_TO_DISK max_bytes else max_bytes)
      in if max_rows \<le> 0 \<and> float_le max_bytes (Finite 0)
         then Inl (ValueError ''Neither max rows per table nor max table size are defined'')
         else if max_rows > 0 \<and> float_lt (Finite 0) max_bytes
         then Inl (ValueError
           ''Both max rows per table and max table size are defined. Only one should be present'')
         else Inr \<lparr>max_rows_per_table = max_rows, max_bytes_per_table = max_bytes,
                   buffer = None\<rparr>)"

text \<open>
  The \<open>try\<close> block of \<open>transform\<close>: the table the call goes on with, or the error raised
  when the buffered table and the incoming one do not concatenate.
\<close>

definition merge_buffer ::
  "('s, 'r) resize_transform \<Rightarrow> ('s, 'r) table \<Rightarrow> error + ('s, 'r) table" where
  "merge_buffer s table =
     (case buffer s of
        None \<Rightarrow> Inr table
      | Some b \<Rightarrow>
          (case concat_tables b table of
             Some c \<Rightarrow> Inr c
           | None \<Rightarrow> Inl (ValueError
               ''Can not concatenate buffered table with input table. Dropping buffer and proceeding.'')))"

text \<open>
  The \<open>while\<close> loop of the row branch. It is entered only under
  \<open>max_rows_per_table > 0\<close>; the loop condition repeats that guard, which makes the
  function total. The result is the list of slices and the final \<open>start_row\<close>.
\<close>

function split_rows ::
  "int \<Rightarrow> ('s, 'r) table \<Rightarrow> int \<Rightarrow> int \<Rightarrow> ('s, 'r) table list
     \<Rightarrow> ('s, 'r) table list \<times> int" where
  "split_rows max_rows table start_row rows_left result =
     (if 0 < max_rows \<and> start_row < num_rows table \<and> rows_left \<ge> max_rows
      then split_rows max_rows table (start_row + max_rows) (rows_left - max_rows)
             (result @ [slice table start_row
                (if num_rows table - start_row > max_rows then max_rows
                 else num_rows table - start_row)])
      else (result, start_row))"
  by pat_completeness auto
termination
  by (relation "measure (\<lambda>(max_rows, table, start_row, rows_left, result). nat rows_left)") auto

declare split_rows.simps [simp del]

text \<open>
  The body of the \<open>for\<close> loop of the size branch, on the loop state
  \<open>(current_size, start_row, result)\<close>. \<open>nbytes\<close> is pyarrow's size estimate of a table.
\<close>

definition size_step ::
  "(('s, 'r) table \<Rightarrow> nat) \<Rightarrow> pyfloat \<Rightarrow> ('s, 'r) table
     \<Rightarrow> real \<times> int \<times> ('s, 'r) table list \<Rightarrow> int \<Rightarrow> real \<times> int \<times> ('s, 'r) table list" where
  "size_step nbytes max_bytes table st n =
     (case st of (current_size, start_row, result) \<Rightarrow>
        (let current_size = current_size + real (nbytes (slice table n 1))
         in if float_lt max_bytes (Finite current_size)
            then (0, n, result @ [slice table start_row (n - start_row)])
            else (current_size, start_row, result)))"

definition split_bytes ::
  "(('s, 'r) table \<Rightarrow> nat) \<Rightarrow> pyfloat \<Rightarrow> ('s, 'r) table \<Rightarrow> ('s, 'r) table list \<times> int" where
  "split_bytes nbytes max_bytes table =
     (if float_lt max_bytes (Finite (real (nbytes table)))
      then (case foldl (size_step nbytes max_bytes table) (0, 0, []) (py_range (num_rows table)) of
              (current_size, start_row, result) \<Rightarrow> (result, start_row))
      else ([], 0))"

text \<open>
  \<open>ResizeTransform.transform\<close>: the value returned or the error raised, and the instance
  after the call.
\<close>

definition transform ::
  "(('s, 'r) table \<Rightarrow> nat) \<Rightarrow> ('s, 'r) resize_transform \<Rightarrow> ('s, 'r) table
     \<Rightarrow> (error + ('s, 'r) table list \<times> stats) \<times> ('s, 'r) resize_transform" where
  "transform nbytes s table =
     (case merge_buffer s table of
        Inl e \<Rightarrow> (Inl e, s\<lparr>buffer := Some table\<rparr>)
      | Inr table' \<Rightarrow>
          (case (if max_rows_per_table s > 0
                 then split_rows (max_rows_per_table s) table' 0 (num_rows table') []
                 else split_bytes nbytes (max_bytes_per_table s) table') of
             (result, start_row) \<Rightarrow>
               (Inr (result, Map.empty),
                if start_row < num_rows table'
                then s\<lparr>buffer := Some (slice table' start_row (num_rows table' - start_row))\<rparr>
                else s\<lparr>buffer := None\<rparr>)))"

text \<open>\<open>ResizeTransform.flush\<close>\<close>

definition flush ::
  "('s, 'r) resize_transform
     \<Rightarrow> (('s, 'r) table list \<times> stats) \<times> ('s, 'r) resize_transform" where
  "flush s =
     (case buffer s of
        Some b \<Rightarrow> (([b], Map.empty), s\<lparr>buffer := None\<rparr>)
      | None \<Rightarrow> (([], Map.empty), s))"

text \<open>
  \<open>ResizeTransformConfiguration.apply_input_params\<close>, on the parameters captured from
  the command line. \<open>None <= 0\<close> raises \<open>TypeError\<close>; \<open>and\<close> evaluates its right operand
  only when the left one holds.
\<close>

definition apply_input_params :: "config \<Rightarrow> error + bool" where
  "apply_input_params params =
     (case cfg_max_rows_per_table params of
        None \<Rightarrow> Inl TypeError
      | Some r \<Rightarrow>
          (if r \<le> 0
           then (case cfg_max_mbytes_per_table params of
                   None \<Rightarrow> Inl TypeError
                 | Some m \<Rightarrow> if float_le m (Finite 0) then Inr False else Inr True)
           else (case cfg_max_mbytes_per_table params of
                   None \<Rightarrow> Inl TypeError
                 | Some m \<Rightarrow> if float_lt (Finite 0) m then Inr False else Inr True)))"

section \<open>Calling sequence and reference scan\<close>

text \<open>The rows an instance holds back: those of its buffer, none when there is no buffer.\<close>

definition buffered_rows :: "('s, 'r) resize_transform \<Rightarrow> 'r list" where
  "buffered_rows s = (case buffer s of None \<Rightarrow> [] | Some b \<Rightarrow> rows b)"

text \<open>
  Modelled from the spec: the runtime that drives an instance is not part of the sources.
  It calls \<open>transform\<close> once per input batch in arrival order and goes on to the next
  batch after a failed call; at the end of the partition it calls \<open>flush\<close> once. \<open>feed\<close>
  collects the errors raised and the batches returned by the \<open>transform\<close> calls,
  \<open>process_partition\<close> appends what the final \<open>flush\<close> returns.
\<close>

fun feed ::
  "(('s, 'r) table \<Rightarrow> nat) \<Rightarrow> ('s, 'r) resize_transform \<Rightarrow> ('s, 'r) table list
     \<Rightarrow> (error list \<times> ('s, 'r) table list) \<times> ('s, 'r) resize_transform" where
  "feed nbytes s [] = (([], []), s)"
| "feed nbytes s (t # ts) =
     (case transform nbytes s t of
        (r, s') \<Rightarrow>
          (case feed nbytes s' ts of
             ((errs, outs), s'') \<Rightarrow>
               (case r of
                  Inl e \<Rightarrow> ((e # errs, outs), s'')
                | Inr (res, st) \<Rightarrow> ((errs, res @ outs), s''))))"

definition process_partition ::
  "(('s, 'r) table \<Rightarrow> nat) \<Rightarrow> ('s, 'r) resize_transform \<Rightarrow> ('s, 'r) table list
     \<Rightarrow> error list \<times> ('s, 'r) table list" where
  "process_partition nbytes s ts =
     (case feed nbytes s ts of
        ((errs, outs), s') \<Rightarrow> (errs, outs @ fst (fst (flush s'))))"

text \<open>
  The loop of the size branch read on the rows themselves, a device for the proofs below,
  where it is shown to compute what the loop of the source computes: \<open>chunk\<close> holds the
  rows from \<open>start_row\<close> up to the current row, \<open>running\<close> is \<open>current_size\<close>. As in the
  source, the size of the current row is added before the comparison and is dropped by the
  reset to zero, although the current row opens the next chunk.
\<close>

fun scan_chunks ::
  "('r \<Rightarrow> real) \<Rightarrow> pyfloat \<Rightarrow> 'r list \<Rightarrow> real \<Rightarrow> 'r list \<Rightarrow> 'r list list \<times> 'r list" where
  "scan_chunks sz B chunk running [] = ([], chunk)"
| "scan_chunks sz B chunk running (r # rs) =
     (if float_lt B (Finite (running + sz r))
      then (case scan_chunks sz B [r] 0 rs of (outs, rest) \<Rightarrow> (chunk # outs, rest))
      else scan_chunks sz B (chunk @ [r]) (running + sz r) rs)"

text \<open>
  The byte-budget scan as the specification words it: the single-row sizes \<open>sz\<close> are
  accumulated into a running total; when the total exceeds the budget \<open>B\<close>, the chunk is
  closed before the current row, the total is reset to zero, and the scan continues from
  the current row, which is therefore scanned into the fresh total and opens the next
  chunk. (The current row is not compared a second time, so the scan always moves on.) The
  result is the list of closed chunks and the rows left after the last closed boundary.
\<close>

fun scan_chunks_spec ::
  "('r \<Rightarrow> real) \<Rightarrow> pyfloat \<Rightarrow> 'r list \<Rightarrow> real \<Rightarrow> 'r list \<Rightarrow> 'r list list \<times> 'r list" where
  "scan_chunks_spec sz B chunk running [] = ([], chunk)"
| "scan_chunks_spec sz B chunk running (r # rs) =
     (if float_lt B (Finite (running + sz r))
      then (case scan_chunks_spec sz B [r] (0 + sz r) rs of
              (outs, rest) \<Rightarrow> (chunk # outs, rest))
      else scan_chunks_spec sz B (chunk @ [r]) (running + sz r) rs)"

section \<open>Slices and the row-budget loop\<close>

lemma slice_rows [simp]: "rows (slice t a b) = take (nat b) (drop (nat a) (rows t))"
  by (simp add: slice_def)

lemma slice_schema [simp]: "schema (slice t a b) = schema t"
  by (simp add: slice_def)

lemma split_rows_closed:
  "0 < R \<Longrightarrow> 0 \<le> st \<Longrightarrow> st \<le> num_rows t \<Longrightarrow> rl = num_rows t - st \<Longrightarrow>
   split_rows R t st rl res =
     (res @ map (\<lambda>i. slice t (st + int i * R) R) [0..<nat (rl div R)], st + (rl div R) * R)"
proof (induction R t st rl res rule: split_rows.induct)
  case (1 R t st rl res)
  show ?case
  proof (cases "st < num_rows t \<and> R \<le> rl")
    case False
    with 1(2,3,4,5) have "rl div R = 0"
      by (intro div_pos_pos_trivial) auto
    with False show ?thesis by (subst split_rows.simps) auto
  next
    case True
    have d: "rl div R = 1 + (rl - R) div R" using 1(2) True
      by (metis add.commute diff_add_cancel div_add_self2 less_irrefl)
    have q: "0 \<le> (rl - R) div R" using True 1(2) by (simp add: pos_imp_zdiv_nonneg_iff)
    have n: "nat (rl div R) = Suc (nat ((rl - R) div R))" using d q by simp
    have sl: "slice t st (if num_rows t - st > R then R else num_rows t - st) = slice t st R"
      using True 1(5) by auto
    have IH: "split_rows R t (st + R) (rl - R) (res @ [slice t st R]) =
       ((res @ [slice t st R]) @ map (\<lambda>i. slice t (st + R + int i * R) R) [0..<nat ((rl - R) div R)],
        st + R + ((rl - R) div R) * R)"
      using 1(1)[OF _ 1(2)] True 1(2,3,4,5) sl by simp
    have m: "map (\<lambda>i. slice t (st + int i * R) R) [0..<Suc (nat ((rl - R) div R))] =
        slice t st R # map (\<lambda>i. slice t (st + R + int i * R) R) [0..<nat ((rl - R) div R)]"
      by (simp add: upt_conv_Cons map_Suc_upt[symmetric] algebra_simps del: upt_Suc)
    have e: "st + rl div R * R = st + R + (rl - R) div R * R"
      by (simp add: d algebra_simps)
    show ?thesis
      apply (subst split_rows.simps)
      using True 1(2) by (simp only: sl IH m n e if_True append_assoc append_Cons append_Nil simp_thms)
  qed
qed

lemma concat_take_chunks:
  "concat (map (\<lambda>i. take R (drop (i * R) xs)) [0..<q]) = take (q * R) xs"
proof (induction q)
  case 0
  show ?case by simp
next
  case (Suc q)
  have "take (q * R + R) xs = take (q * R) xs @ take R (drop (q * R) xs)"
    by (rule take_add)
  with Suc show ?case by (simp add: add.commute)
qed

lemma slice_whole: "slice w 0 (num_rows w) = w"
  by (simp add: slice_def num_rows_def)

lemma split_rows_start:
  assumes "0 < R"
  shows "split_rows R w 0 (num_rows w) [] =
     (map (\<lambda>i. slice w (int i * R) R) [0..<nat (num_rows w div R)], (num_rows w div R) * R)"
  using split_rows_closed[of R 0 w "num_rows w" "[]"] assms
  by (simp add: num_rows_def)

lemma transform_row_mode:
  assumes R: "0 < max_rows_per_table s" and m: "merge_buffer s t = Inr w"
  shows "transform nbytes s t =
     (Inr (map (\<lambda>i. slice w (int i * max_rows_per_table s) (max_rows_per_table s))
             [0..<nat (num_rows w div max_rows_per_table s)], Map.empty),
      if num_rows w mod max_rows_per_table s = 0 then s\<lparr>buffer := None\<rparr>
      else s\<lparr>buffer := Some (slice w (num_rows w div max_rows_per_table s * max_rows_per_table s)
                                  (num_rows w mod max_rows_per_table s))\<rparr>)"
proof -
  let ?R = "max_rows_per_table s"
  let ?n = "num_rows w"
  have lt: "(?n div ?R * ?R < ?n) = (?n mod ?R \<noteq> 0)"
    using R by (smt (verit) mod_pos_pos_trivial pos_mod_sign mult.commute mult_div_mod_eq num_rows_def of_nat_0_le_iff)
  have df: "?n - ?n div ?R * ?R = ?n mod ?R"
    by (simp add: minus_div_mult_eq_mod)
  show ?thesis
    unfolding transform_def m
    using R by (simp add: split_rows_start lt df)
qed

lemma slice_num_rows:
  "num_rows (slice t a b) = int (min (length (rows t) - nat a) (nat b))"
  by (simp add: num_rows_def)

lemma slice_num_rows_full:
  assumes "0 < R" "int (Suc i) * R \<le> num_rows w"
  shows "num_rows (slice w (int i * R) R) = R"
proof -
  obtain r where r: "R = int r" "0 < r" using assms(1) by (metis nat_0_le order_less_imp_le of_nat_0_less_iff)
  have "int (Suc i * r) \<le> int (length (rows w))" using assms(2) by (simp add: r num_rows_def algebra_simps)
  then have "Suc i * r \<le> length (rows w)" by (simp only: of_nat_le_iff)
  then have "r \<le> length (rows w) - i * r" by simp
  moreover have "nat (int i * R) = i * r" by (simp add: r nat_mult_distrib)
  ultimately show ?thesis by (simp add: num_rows_def r)
qed

lemma rows_chunks:
  assumes "0 < R"
  shows "concat (map rows (map (\<lambda>i. slice w (int i * R) R) [0..<q])) = take (q * nat R) (rows w)"
proof -
  have "\<And>i. nat (int i * R) = i * nat R" using assms by (simp add: nat_mult_distrib)
  then show ?thesis
    using concat_take_chunks[of "nat R" "rows w" q] by (simp add: comp_def)
qed

lemma row_mode_split_props:
  assumes R: "0 < max_rows_per_table s" and m: "merge_buffer s t = Inr w"
  shows "\<exists>outs s'. transform nbytes s t = (Inr (outs, Map.empty), s') \<and>
     map num_rows outs = replicate (nat (num_rows w div max_rows_per_table s)) (max_rows_per_table s) \<and>
     concat (map rows outs) @ buffered_rows s' = rows w \<and>
     (case buffer s' of
        None \<Rightarrow> num_rows w mod max_rows_per_table s = 0
      | Some b \<Rightarrow> num_rows b = num_rows w mod max_rows_per_table s \<and>
                  0 < num_rows b \<and> num_rows b < max_rows_per_table s)"
proof -
  let ?R = "max_rows_per_table s"
  let ?q = "nat (num_rows w div ?R)"
  let ?outs = "map (\<lambda>i. slice w (int i * ?R) ?R) [0..<?q]"
  let ?s' = "if num_rows w mod ?R = 0 then s\<lparr>buffer := None\<rparr>
      else s\<lparr>buffer := Some (slice w (num_rows w div ?R * ?R) (num_rows w mod ?R))\<rparr>"
  obtain r where r: "?R = int r" "0 < r"
    using R by (metis nat_0_le order_less_imp_le of_nat_0_less_iff)
  define n where "n = length (rows w)"
  have nr: "num_rows w = int n" by (simp add: num_rows_def n_def)
  have dv: "num_rows w div ?R = int (n div r)" by (simp add: nr r zdiv_int)
  have md: "num_rows w mod ?R = int (n mod r)" by (simp add: nr r zmod_int)
  have dv': "num_rows w div int r = int (n div r)" by (simp add: nr zdiv_int)
  have md': "num_rows w mod int r = int (n mod r)" by (simp add: nr zmod_int)
  have q: "?q = n div r" by (simp add: dv)
  have t: "transform nbytes s t = (Inr (?outs, Map.empty), ?s')"
    by (rule transform_row_mode[OF R m])
  have full: "num_rows (slice w (int i * ?R) ?R) = ?R" if "i < ?q" for i
  proof (rule slice_num_rows_full[OF R])
    have "Suc i \<le> n div r" using that q by simp
    then have "Suc i * r \<le> (n div r) * r" by (rule mult_le_mono1)
    also have "\<dots> \<le> n" by simp
    finally have "int (Suc i * r) \<le> int n" by (simp only: of_nat_le_iff)
    then show "int (Suc i) * ?R \<le> num_rows w" by (simp add: r nr algebra_simps)
  qed
  have a: "map num_rows ?outs = replicate ?q ?R"
    by (rule nth_equalityI) (simp_all add: full)
  have natq: "nat (num_rows w div ?R * ?R) = n div r * r"
    by (simp add: dv' r nat_mult_distrib)
  have rest: "n - n div r * r = n mod r"
    by (simp add: minus_div_mult_eq_mod)
  have chunks: "concat (map rows ?outs) = take (n div r * r) (rows w)"
    using rows_chunks[OF R, of w ?q] by (simp only: q) (simp add: r)
  have b': "take (n div r * r) (rows w) @ buffered_rows ?s' = rows w"
  proof (cases "n mod r = 0")
    case True
    then have "n \<le> n div r * r" using rest by simp
    then show ?thesis using True
      by (simp add: buffered_rows_def md n_def)
  next
    case False
    have "take (n mod r) (drop (n div r * r) (rows w)) = drop (n div r * r) (rows w)"
      using rest by (simp add: n_def)
    then show ?thesis using False
      by (simp add: buffered_rows_def md natq)
  qed
  have b: "concat (map rows ?outs) @ buffered_rows ?s' = rows w"
    using b' by (simp only: chunks)
  have c: "(case buffer ?s' of
        None \<Rightarrow> num_rows w mod ?R = 0
      | Some b \<Rightarrow> num_rows b = num_rows w mod ?R \<and> 0 < num_rows b \<and> num_rows b < ?R)"
  proof (cases "n mod r = 0")
    case True
    then show ?thesis by (simp add: md)
  next
    case False
    have "num_rows (slice w (num_rows w div ?R * ?R) (num_rows w mod ?R)) = int (n mod r)"
      using rest by (simp add: slice_num_rows natq md n_def[symmetric])
    with False r(2) show ?thesis by (simp add: md) (simp add: r(1))
  qed
  from t a b c show ?thesis by blast
qed



section \<open>Flush\<close>

text \<open>
  Claim C7. For every instance state, \<open>flush\<close> returns the buffered batch alone when there
  is one and no batch otherwise, with empty statistics, and leaves the instance without a
  buffer. Neither limit is consulted: the buffered batch is returned as it is, whatever
  its size.
\<close>

theorem flush_emits_buffer:
  "flush s = ((case buffer s of None \<Rightarrow> [] | Some b \<Rightarrow> [b], Map.empty), s\<lparr>buffer := None\<rparr>)"
  by (cases "buffer s") (simp_all add: flush_def)

text \<open>
  An instance: with a row limit of 2, a buffer of five rows is returned whole.
\<close>

theorem flush_emits_buffer_witness:
  "flush \<lparr>max_rows_per_table = 2, max_bytes_per_table = Finite 0,
          buffer = Some \<lparr>schema = (), rows = [1, 2, 3, 4, 5 :: nat]\<rparr>\<rparr> =
     (([\<lparr>schema = (), rows = [1, 2, 3, 4, 5]\<rparr>], Map.empty),
      \<lparr>max_rows_per_table = 2, max_bytes_per_table = Finite 0, buffer = None\<rparr>)"
  using flush_emits_buffer[of "\<lparr>max_rows_per_table = 2, max_bytes_per_table = Finite 0,
          buffer = Some \<lparr>schema = (), rows = [1, 2, 3, 4, 5 :: nat]\<rparr>\<rparr>"]
  by simp

lemma transform_no_buffer:
  assumes "buffer s = None"
  shows "\<exists>outs s'. transform nbytes s t = (Inr (outs, Map.empty), s')"
proof -
  have "merge_buffer s t = Inr t" using assms by (simp add: merge_buffer_def)
  then show ?thesis
    by (simp add: transform_def split: prod.splits)
qed

text \<open>
  Claim C3, as amended. The instance records no terminal state. After \<open>flush\<close> the buffer
  is absent; a second \<open>flush\<close> returns no batch and leaves the instance as it is, and a
  \<open>transform\<close> call after \<open>flush\<close> returns normally, as on an instance without a buffer.
\<close>

theorem flush_twice_is_empty:
  "fst (flush (snd (flush s))) = ([], Map.empty) \<and>
   snd (flush (snd (flush s))) = snd (flush s) \<and>
   (\<exists>outs s'. transform nbytes (snd (flush s)) t = (Inr (outs, Map.empty), s'))"
proof -
  have b: "buffer (snd (flush s)) = None"
    by (cases "buffer s") (simp_all add: flush_def)
  then have "flush (snd (flush s)) = (([], Map.empty), snd (flush s))"
    by (simp add: flush_def)
  with transform_no_buffer[OF b] show ?thesis by simp
qed

text \<open>
  Claim C3 as stated fails: on an instance holding one buffered row, the second \<open>flush\<close>
  returns an empty result, and a \<open>transform\<close> call after \<open>flush\<close> returns its batch.
\<close>

theorem second_flush_counterexample:
  "fst (flush (snd (flush
      \<lparr>max_rows_per_table = 2, max_bytes_per_table = Finite 0,
       buffer = Some \<lparr>schema = (), rows = [1::nat]\<rparr>\<rparr>))) = ([], Map.empty) \<and>
   fst (transform (\<lambda>_. 0) (snd (flush
      \<lparr>max_rows_per_table = 2, max_bytes_per_table = Finite 0,
       buffer = Some \<lparr>schema = (), rows = [1::nat]\<rparr>\<rparr>))
      \<lparr>schema = (), rows = [5, 6]\<rparr>) = Inr ([\<lparr>schema = (), rows = [5, 6]\<rparr>], Map.empty)"
  apply (simp add: flush_def transform_def merge_buffer_def num_rows_def)
  apply (subst split_rows.simps)
  apply (simp add: num_rows_def)
  apply (subst split_rows.simps)
  apply (simp add: num_rows_def slice_def)
  done

section \<open>Failures and configuration\<close>

lemma transform_mismatch:
  assumes "buffer s = Some b" "schema b \<noteq> schema t"
  shows "transform nbytes s t =
     (Inl (ValueError
        ''Can not concatenate buffered table with input table. Dropping buffer and proceeding.''),
      s\<lparr>buffer := Some t\<rparr>)"
  using assms by (simp add: transform_def merge_buffer_def concat_tables_def)

lemma merge_buffer_cases:
  "merge_buffer s t =
     (case buffer s of
        None \<Rightarrow> Inr t
      | Some b \<Rightarrow> if schema b = schema t then Inr (b\<lparr>rows := rows b @ rows t\<rparr>)
                  else Inl (ValueError
        ''Can not concatenate buffered table with input table. Dropping buffer and proceeding.''))"
  by (simp add: merge_buffer_def concat_tables_def split: option.splits)

lemma transform_merged:
  assumes "merge_buffer s t = Inr w"
  shows "\<exists>outs s'. transform nbytes s t = (Inr (outs, Map.empty), s')"
  using assms by (simp add: transform_def split: prod.splits)

text \<open>
  Claim C4, as amended. \<open>transform\<close> raises in exactly one case: when there is a buffered
  batch whose schema differs from that of the incoming batch, the call raises
  \<open>ValueError\<close>, so it returns no outputs, and it leaves the incoming batch as the buffer
  in place of the old one. In every other case the call returns normally.
\<close>

theorem transform_raises_only_on_mismatch:
  "(case buffer s of
      None \<Rightarrow> (\<exists>outs s'. transform nbytes s t = (Inr (outs, Map.empty), s'))
    | Some b \<Rightarrow>
        if schema b = schema t
        then (\<exists>outs s'. transform nbytes s t = (Inr (outs, Map.empty), s'))
        else transform nbytes s t =
          (Inl (ValueError
             ''Can not concatenate buffered table with input table. Dropping buffer and proceeding.''),
           s\<lparr>buffer := Some t\<rparr>))"
proof (cases "buffer s")
  case None
  then have "merge_buffer s t = Inr t" by (simp add: merge_buffer_cases)
  from transform_merged[OF this] None show ?thesis by simp
next
  case (Some b)
  show ?thesis
  proof (cases "schema b = schema t")
    case True
    then have "merge_buffer s t = Inr (b\<lparr>rows := rows b @ rows t\<rparr>)"
      using Some by (simp add: merge_buffer_cases)
    from transform_merged[OF this] Some True show ?thesis by simp
  next
    case False
    from transform_mismatch[OF Some False] Some False show ?thesis by simp
  qed
qed

text \<open>
  Claim C4 as stated fails: on a well-formed batch whose schema differs from that of the
  buffered batch, \<open>transform\<close> raises \<open>ValueError\<close>.
\<close>

theorem transform_throws_counterexample:
  "fst (transform (\<lambda>_. 0)
      \<lparr>max_rows_per_table = 2, max_bytes_per_table = Finite 0,
       buffer = Some \<lparr>schema = ''a'', rows = [1::nat]\<rparr>\<rparr>
      \<lparr>schema = ''b'', rows = [5, 6]\<rparr>) =
   Inl (ValueError
     ''Can not concatenate buffered table with input table. Dropping buffer and proceeding.'')"
  by (simp add: transform_def merge_buffer_def concat_tables_def)

text \<open>
  An instance of the failing path: the buffered row is dropped and the incoming batch is
  the buffer after the call.
\<close>

theorem transform_raises_only_on_mismatch_witness:
  "transform (\<lambda>_. 0)
      \<lparr>max_rows_per_table = 2, max_bytes_per_table = Finite 0,
       buffer = Some \<lparr>schema = ''a'', rows = [1::nat]\<rparr>\<rparr>
      \<lparr>schema = ''b'', rows = [5, 6]\<rparr> =
   (Inl (ValueError
     ''Can not concatenate buffered table with input table. Dropping buffer and proceeding.''),
    \<lparr>max_rows_per_table = 2, max_bytes_per_table = Finite 0,
       buffer = Some \<lparr>schema = ''b'', rows = [5, 6]\<rparr>\<rparr>)"
  using transform_raises_only_on_mismatch[where
      s = "\<lparr>max_rows_per_table = 2, max_bytes_per_table = Finite 0,
       buffer = Some \<lparr>schema = ''a'', rows = [1::nat]\<rparr>\<rparr>"
      and nbytes = "\<lambda>_. 0" and t = "\<lparr>schema = ''b'', rows = [5, 6]\<rparr>"]
  by simp

lemma float_le_not_lt: "float_le a b \<Longrightarrow> \<not> float_lt b a"
  by (cases a; cases b) auto

lemma float_le_zero_iff: "m \<noteq> NaN \<Longrightarrow> float_le m (Finite 0) = (\<not> float_lt (Finite 0) m)"
  by (cases m) auto

lemma float_mult_pos:
  assumes "0 < c"
  shows "float_lt (Finite 0) (float_mult c m) = float_lt (Finite 0) m"
    and "float_le (float_mult c m) (Finite 0) = float_le m (Finite 0)"
    and "(float_mult c m = NaN) = (m = NaN)"
  using assms by (cases m; simp add: zero_less_mult_iff mult_le_0_iff)+

text \<open>
  Where the byte limit is a number (anything but not-a-number), validation does what is
  asked of it: \<open>apply_input_params\<close> accepts exactly when one of the two limits is positive
  and the other is not, and the constructor, for positive \<open>MB\<close> and \<open>LOCAL_TO_DISK\<close>, raises
  exactly in the other cases (a limit that is absent counts as 0).
\<close>

lemma validation_when_a_number:
  assumes "m \<noteq> NaN"
  shows "apply_input_params \<lparr>cfg_max_rows_per_table = Some r, cfg_max_mbytes_per_table = Some m,
       cfg_size_type = st\<rparr> = Inr ((0 < r) \<noteq> float_lt (Finite 0) m)"
  using float_le_zero_iff[OF assms] by (auto simp: apply_input_params_def)

lemma init_when_a_number:
  assumes "0 < MB" and "0 < LOCAL_TO_DISK"
    and "get_default (cfg_max_mbytes_per_table c) (Finite 0) \<noteq> NaN"
  shows "(case (init MB LOCAL_TO_DISK c :: error + ('s, 'r) resize_transform) of
        Inl e \<Rightarrow> (0 < get_default (cfg_max_rows_per_table c) 0) =
                 float_lt (Finite 0) (get_default (cfg_max_mbytes_per_table c) (Finite 0))
      | Inr s \<Rightarrow> (0 < get_default (cfg_max_rows_per_table c) 0) \<noteq>
                   float_lt (Finite 0) (get_default (cfg_max_mbytes_per_table c) (Finite 0)) \<and>
                 max_rows_per_table s = get_default (cfg_max_rows_per_table c) 0 \<and>
                 buffer s = None \<and>
                 (0 < max_rows_per_table s) \<noteq> float_lt (Finite 0) (max_bytes_per_table s))"
proof -
  let ?m = "get_default (cfg_max_mbytes_per_table c) (Finite 0)"
  have z: "float_le ?m (Finite 0) = (\<not> float_lt (Finite 0) ?m)"
    by (rule float_le_zero_iff[OF assms(3)])
  show ?thesis
    by (auto simp: init_def Let_def float_mult_pos[OF assms(1)] float_mult_pos[OF assms(2)] z)
qed

text \<open>
  Claim C8. Validation is to fail when neither limit is positive. The code misses the case
  of a byte limit that is not a number: both \<open>nan <= 0\<close> and \<open>nan > 0\<close> are false, so with a
  row limit of -1 (the default) and \<open>max_mbytes_per_table\<close> given as \<open>nan\<close>, neither guard
  fires: \<open>apply_input_params\<close> returns \<open>True\<close>, and the constructor, whatever the constants
  \<open>MB\<close> and \<open>LOCAL_TO_DISK\<close> and the size type, raises nothing and builds an instance,
  although neither limit is positive.
\<close>

theorem validation_accepts_nan:
  "apply_input_params \<lparr>cfg_max_rows_per_table = Some (-1), cfg_max_mbytes_per_table = Some NaN,
       cfg_size_type = st\<rparr> = Inr True \<and>
   init MB LOCAL_TO_DISK \<lparr>cfg_max_rows_per_table = Some (-1),
       cfg_max_mbytes_per_table = Some NaN, cfg_size_type = st\<rparr> =
     Inr \<lparr>max_rows_per_table = -1, max_bytes_per_table = NaN, buffer = None\<rparr> \<and>
   \<not> 0 < (-1 :: int) \<and> \<not> float_lt (Finite 0) NaN"
  by (simp add: apply_input_params_def init_def get_default_def)

section \<open>The byte-budget scan\<close>

lemma scan_chunks_concat:
  "scan_chunks sz B chunk running rs = (outs, rest) \<Longrightarrow> concat outs @ rest = chunk @ rs"
proof (induction rs arbitrary: chunk running outs rest)
  case Nil
  then show ?case by simp
next
  case (Cons r rs)
  show ?case
  proof (cases "float_lt B (Finite (running + sz r))")
    case True
    obtain outs' rest' where sc: "scan_chunks sz B [r] 0 rs = (outs', rest')"
      by (cases "scan_chunks sz B [r] 0 rs")
    from Cons.IH[OF sc] Cons.prems True sc show ?thesis by auto
  next
    case False
    with Cons.prems have "scan_chunks sz B (chunk @ [r]) (running + sz r) rs = (outs, rest)"
      by simp
    from Cons.IH[OF this] show ?thesis by simp
  qed
qed

lemma scan_chunks_rest:
  "scan_chunks sz B chunk running rs = (outs, rest) \<Longrightarrow> (rest = []) = (chunk = [] \<and> rs = [])"
proof (induction rs arbitrary: chunk running outs rest)
  case Nil
  then show ?case by auto
next
  case (Cons r rs)
  show ?case
  proof (cases "float_lt B (Finite (running + sz r))")
    case True
    obtain outs' rest' where sc: "scan_chunks sz B [r] 0 rs = (outs', rest')"
      by (cases "scan_chunks sz B [r] 0 rs")
    from Cons.IH[OF sc] Cons.prems True sc show ?thesis by auto
  next
    case False
    with Cons.prems have "scan_chunks sz B (chunk @ [r]) (running + sz r) rs = (outs, rest)"
      by simp
    from Cons.IH[OF this] show ?thesis by simp
  qed
qed

lemma slice_one:
  "k < length (rows w) \<Longrightarrow> slice w (int k) 1 = w\<lparr>rows := [rows w ! k]\<rparr>"
  by (simp add: slice_def take_Suc_conv_app_nth hd_drop_conv_nth take_Suc)

lemma slice_between:
  "st \<le> k \<Longrightarrow> slice w (int st) (int k - int st) = w\<lparr>rows := take (k - st) (drop st (rows w))\<rparr>"
  by (simp add: slice_def nat_diff_distrib')

lemma foldl_size_step:
  assumes "st \<le> k" "k \<le> length (rows w)" "m = length (rows w) - k"
    and "scan_chunks (\<lambda>r. real (nbytes (w\<lparr>rows := [r]\<rparr>))) B
           (take (k - st) (drop st (rows w))) cs (drop k (rows w)) = (outs, rest)"
  shows "snd (foldl (size_step nbytes B w) (cs, int st, res) (map int [k..<length (rows w)])) =
     (int (length (rows w) - length rest), res @ map (\<lambda>c. w\<lparr>rows := c\<rparr>) outs)"
  using assms
proof (induction m arbitrary: k st cs res outs rest)
  case 0
  then have k: "k = length (rows w)" by simp
  with "0.prems" show ?case by auto
next
  case (Suc m)
  let ?n = "length (rows w)"
  let ?sz = "\<lambda>r. real (nbytes (w\<lparr>rows := [r]\<rparr>))"
  from Suc.prems have kn: "k < ?n" by simp
  have up: "[k..<?n] = k # [Suc k..<?n]" using kn by (simp add: upt_conv_Cons)
  have dr: "drop k (rows w) = rows w ! k # drop (Suc k) (rows w)"
    using kn by (simp add: Cons_nth_drop_Suc)
  show ?case
  proof (cases "float_lt B (Finite (cs + ?sz (rows w ! k)))")
    case True
    obtain outs' rest' where sc:
      "scan_chunks ?sz B [rows w ! k] 0 (drop (Suc k) (rows w)) = (outs', rest')"
      by (cases "scan_chunks ?sz B [rows w ! k] 0 (drop (Suc k) (rows w))")
    have o: "outs = take (k - st) (drop st (rows w)) # outs'" "rest = rest'"
      using Suc.prems(4) True sc by (simp_all add: dr)
    have step: "size_step nbytes B w (cs, int st, res) (int k) =
        (0, int k, res @ [w\<lparr>rows := take (k - st) (drop st (rows w))\<rparr>])"
      using True Suc.prems(1) kn by (simp add: size_step_def slice_one slice_between)
    have ch: "take (Suc 0) (drop k (rows w)) = [rows w ! k]"
      by (simp add: dr)
    have "snd (foldl (size_step nbytes B w)
             (0, int k, res @ [w\<lparr>rows := take (k - st) (drop st (rows w))\<rparr>])
             (map int [Suc k..<?n])) =
       (int (?n - length rest'),
        (res @ [w\<lparr>rows := take (k - st) (drop st (rows w))\<rparr>]) @ map (\<lambda>c. w\<lparr>rows := c\<rparr>) outs')"
      using Suc.prems(3) kn sc by (intro Suc.IH) (simp_all add: ch)
    then show ?thesis by (simp add: up step o)
  next
    case False
    have sc: "scan_chunks ?sz B (take (k - st) (drop st (rows w)) @ [rows w ! k])
          (cs + ?sz (rows w ! k)) (drop (Suc k) (rows w)) = (outs, rest)"
      using Suc.prems(4) False by (simp add: dr)
    have step: "size_step nbytes B w (cs, int st, res) (int k) =
        (cs + ?sz (rows w ! k), int st, res)"
      using False kn by (simp add: size_step_def slice_one)
    have ch: "take (Suc k - st) (drop st (rows w)) = take (k - st) (drop st (rows w)) @ [rows w ! k]"
      using Suc.prems(1) kn by (simp add: Suc_diff_le take_Suc_conv_app_nth)
    have "snd (foldl (size_step nbytes B w) (cs + ?sz (rows w ! k), int st, res)
             (map int [Suc k..<?n])) =
       (int (?n - length rest), res @ map (\<lambda>c. w\<lparr>rows := c\<rparr>) outs)"
      using Suc.prems(1,3) kn sc by (intro Suc.IH) (simp_all add: ch)
    then show ?thesis by (simp add: up step)
  qed
qed

lemma slice_tail:
  "a \<le> length (rows w) \<Longrightarrow>
   slice w (int a) (int (length (rows w)) - int a) = w\<lparr>rows := drop a (rows w)\<rparr>"
  by (simp add: slice_def)

lemma split_bytes_scan:
  assumes "float_lt B (Finite (real (nbytes w)))"
    and "scan_chunks (\<lambda>r. real (nbytes (w\<lparr>rows := [r]\<rparr>))) B [] 0 (rows w) = (outs, rest)"
  shows "split_bytes nbytes B w =
     (map (\<lambda>c. w\<lparr>rows := c\<rparr>) outs, int (length (rows w) - length rest))"
proof -
  have "snd (foldl (size_step nbytes B w) (0, int 0, []) (map int [0..<length (rows w)])) =
     (int (length (rows w) - length rest), [] @ map (\<lambda>c. w\<lparr>rows := c\<rparr>) outs)"
    using assms(2) by (intro foldl_size_step[where m = "length (rows w)"]) simp_all
  then show ?thesis
    using assms(1) by (auto simp: split_bytes_def py_range_def num_rows_def split: prod.splits)
qed

lemma transform_byte_mode:
  assumes "\<not> 0 < max_rows_per_table s" and "merge_buffer s t = Inr w"
    and "float_lt (max_bytes_per_table s) (Finite (real (nbytes w)))"
    and sc: "scan_chunks (\<lambda>r. real (nbytes (w\<lparr>rows := [r]\<rparr>))) (max_bytes_per_table s) [] 0
           (rows w) = (outs, rest)"
  shows "transform nbytes s t =
     (Inr (map (\<lambda>c. w\<lparr>rows := c\<rparr>) outs, Map.empty),
      s\<lparr>buffer := if rest = [] then None else Some (w\<lparr>rows := rest\<rparr>)\<rparr>)"
proof -
  let ?n = "length (rows w)"
  have rw: "rows w = concat outs @ rest" using scan_chunks_concat[OF sc] by simp
  have len: "?n - length rest = length (concat outs)" by (subst rw) simp
  have dr: "drop (?n - length rest) (rows w) = rest" unfolding len by (subst rw) simp
  have lt: "(int (?n - length rest) < int ?n) = (rest \<noteq> [])"
    by (subst (2) rw) (auto simp: len)
  have "slice w (int (?n - length rest)) (int ?n - int (?n - length rest)) =
      w\<lparr>rows := drop (?n - length rest) (rows w)\<rparr>"
    by (rule slice_tail) simp
  then have sl: "slice w (int (?n - length rest)) (int ?n - int (?n - length rest)) = w\<lparr>rows := rest\<rparr>"
    by (simp only: dr)
  show ?thesis
    using assms(1) lt
    by (simp add: transform_def assms(2) split_bytes_scan[OF assms(3) sc] num_rows_def sl)
qed

lemma transform_byte_small:
  assumes "\<not> 0 < max_rows_per_table s" and "merge_buffer s t = Inr w"
    and "\<not> float_lt (max_bytes_per_table s) (Finite (real (nbytes w)))"
  shows "transform nbytes s t =
     (Inr ([], Map.empty), s\<lparr>buffer := if rows w = [] then None else Some w\<rparr>)"
  using assms by (simp add: transform_def split_bytes_def num_rows_def slice_def)

text \<open>
  The size branch on the rows: when the size estimate of the working batch \<open>w\<close> exceeds
  the budget, the batches returned by \<open>transform\<close> are the chunks that \<open>scan_chunks\<close> closes
  on the rows of \<open>w\<close> under the single-row size estimates, in order, and the buffer after
  the call holds the rows after the last closed boundary, whatever their size (it is
  absent only when \<open>w\<close> has no rows).
\<close>

lemma byte_mode_scan:
  assumes "\<not> 0 < max_rows_per_table s" and "merge_buffer s t = Inr w"
    and "float_lt (max_bytes_per_table s) (Finite (real (nbytes w)))"
  shows "transform nbytes s t =
     (case scan_chunks (\<lambda>r. real (nbytes (w\<lparr>rows := [r]\<rparr>))) (max_bytes_per_table s) [] 0
             (rows w) of
        (outs, rest) \<Rightarrow>
          (Inr (map (\<lambda>c. w\<lparr>rows := c\<rparr>) outs, Map.empty),
           s\<lparr>buffer := if rest = [] then None else Some (w\<lparr>rows := rest\<rparr>)\<rparr>))"
proof -
  obtain outs rest where sc:
    "scan_chunks (\<lambda>r. real (nbytes (w\<lparr>rows := [r]\<rparr>))) (max_bytes_per_table s) [] 0 (rows w) =
       (outs, rest)"
    by (cases "scan_chunks (\<lambda>r. real (nbytes (w\<lparr>rows := [r]\<rparr>))) (max_bytes_per_table s) [] 0
          (rows w)")
  show ?thesis
    by (simp only: sc prod.case transform_byte_mode[where nbytes = nbytes, OF assms sc])
qed

text \<open>
  An instance, rows sized 4, 4, 4, 4, 4, 1 under a budget of 10: the third row takes the
  total to 12, which closes the chunk of the first two rows; the rows from the third on
  are buffered although the total scanned since the boundary is only 9.
\<close>

lemma byte_mode_scan_example:
  "transform (\<lambda>t. sum_list (rows t))
      \<lparr>max_rows_per_table = 0, max_bytes_per_table = Finite 10, buffer = None\<rparr>
      \<lparr>schema = (), rows = [4, 4, 4, 4, 4, 1 :: nat]\<rparr> =
   (Inr ([\<lparr>schema = (), rows = [4, 4]\<rparr>], Map.empty),
    \<lparr>max_rows_per_table = 0, max_bytes_per_table = Finite 10,
     buffer = Some \<lparr>schema = (), rows = [4, 4, 4, 1]\<rparr>\<rparr>)"
proof -
  let ?s = "\<lparr>max_rows_per_table = 0, max_bytes_per_table = Finite 10,
             buffer = (None :: (unit, nat) table option)\<rparr>"
  let ?t = "\<lparr>schema = (), rows = [4, 4, 4, 4, 4, 1 :: nat]\<rparr>"
  have a: "\<not> 0 < max_rows_per_table ?s" by simp
  have b: "merge_buffer ?s ?t = Inr ?t" by (simp add: merge_buffer_def)
  have c: "float_lt (max_bytes_per_table ?s) (Finite (real (sum_list (rows ?t))))" by simp
  show ?thesis
    using byte_mode_scan[where nbytes = "\<lambda>t. sum_list (rows t)", OF a b c] by simp
qed

text \<open>
  With the current row counted, as the specification words the scan, a chunk is closed
  only while its own total is within the budget: when every single row fits the budget,
  so does every closed chunk.
\<close>

lemma scan_chunks_spec_within_budget:
  assumes "scan_chunks_spec sz B chunk running rs = (outs, rest)"
    and "running = sum_list (map sz chunk)"
    and "\<not> float_lt B (Finite running)"
    and "list_all (\<lambda>r. \<not> float_lt B (Finite (sz r))) rs"
  shows "list_all (\<lambda>c. \<not> float_lt B (Finite (sum_list (map sz c)))) outs"
  using assms
proof (induction rs arbitrary: chunk running outs rest)
  case Nil
  then show ?case by simp
next
  case (Cons r rs)
  show ?case
  proof (cases "float_lt B (Finite (running + sz r))")
    case True
    obtain outs' rest' where sc: "scan_chunks_spec sz B [r] (0 + sz r) rs = (outs', rest')"
      by (cases "scan_chunks_spec sz B [r] (0 + sz r) rs")
    have o: "outs = chunk # outs'" using Cons.prems(1) True sc by simp
    have "list_all (\<lambda>c. \<not> float_lt B (Finite (sum_list (map sz c)))) outs'"
      using Cons.prems(4) by (intro Cons.IH[OF sc]) simp_all
    then show ?thesis using o Cons.prems(2,3) by simp
  next
    case False
    then have sc: "scan_chunks_spec sz B (chunk @ [r]) (running + sz r) rs = (outs, rest)"
      using Cons.prems(1) by simp
    show ?thesis
      using Cons.prems(2,4) False by (intro Cons.IH[OF sc]) simp_all
  qed
qed

text \<open>
  Claim C5. The claim has the scan continue from the current row after a boundary, so that
  the current row's size is the start of the new running total. The code adds the current
  row's size before the comparison and then resets the total to zero, so the size of the
  row that opens a chunk is never counted. On seven rows of 4 bytes under a budget of 10
  bytes the scan of the claim closes three chunks of two rows and leaves one row; the code
  returns a batch of two rows and then a batch of three rows, 12 bytes, which is above the
  budget, and buffers two rows.
\<close>

theorem byte_mode_drops_boundary_row:
  "transform (\<lambda>t. sum_list (rows t))
      \<lparr>max_rows_per_table = 0, max_bytes_per_table = Finite 10, buffer = None\<rparr>
      \<lparr>schema = (), rows = [4, 4, 4, 4, 4, 4, 4 :: nat]\<rparr> =
     (Inr ([\<lparr>schema = (), rows = [4, 4]\<rparr>, \<lparr>schema = (), rows = [4, 4, 4]\<rparr>], Map.empty),
      \<lparr>max_rows_per_table = 0, max_bytes_per_table = Finite 10,
       buffer = Some \<lparr>schema = (), rows = [4, 4]\<rparr>\<rparr>) \<and>
   scan_chunks_spec
      (\<lambda>r. real (sum_list (rows (\<lparr>schema = (), rows = [4, 4, 4, 4, 4, 4, 4 :: nat]\<rparr>
                                   \<lparr>rows := [r]\<rparr>))))
      (Finite 10) [] 0 [4, 4, 4, 4, 4, 4, 4 :: nat] =
     ([[4, 4], [4, 4], [4, 4]], [4]) \<and>
   float_lt (Finite 10) (Finite (real (sum_list [4, 4, 4 :: nat])))"
proof -
  let ?s = "\<lparr>max_rows_per_table = 0, max_bytes_per_table = Finite 10,
             buffer = (None :: (unit, nat) table option)\<rparr>"
  let ?t = "\<lparr>schema = (), rows = [4, 4, 4, 4, 4, 4, 4 :: nat]\<rparr>"
  have a: "\<not> 0 < max_rows_per_table ?s" by simp
  have b: "merge_buffer ?s ?t = Inr ?t" by (simp add: merge_buffer_def)
  have c: "float_lt (max_bytes_per_table ?s) (Finite (real (sum_list (rows ?t))))" by simp
  have t: "transform (\<lambda>t. sum_list (rows t)) ?s ?t =
     (Inr ([\<lparr>schema = (), rows = [4, 4]\<rparr>, \<lparr>schema = (), rows = [4, 4, 4]\<rparr>], Map.empty),
      \<lparr>max_rows_per_table = 0, max_bytes_per_table = Finite 10,
       buffer = Some \<lparr>schema = (), rows = [4, 4]\<rparr>\<rparr>)"
    using byte_mode_scan[where nbytes = "\<lambda>t. sum_list (rows t)", OF a b c] by simp
  show ?thesis
    by (rule conjI, rule t) simp
qed

text \<open>
  Claim C6, as amended. In byte-budget mode, for every working batch \<open>w\<close> whose size
  estimate is at most the budget, \<open>transform\<close> returns no batch; when \<open>w\<close> has at least
  one row, \<open>w\<close> becomes the buffer and a subsequent \<open>flush\<close> returns exactly \<open>w\<close>; when
  \<open>w\<close> has no rows, the buffer stays absent and \<open>flush\<close> returns no batch.
\<close>

theorem byte_mode_under_limit:
  assumes "\<not> 0 < max_rows_per_table s" and "merge_buffer s t = Inr w"
    and "float_le (Finite (real (nbytes w))) (max_bytes_per_table s)"
  shows "transform nbytes s t =
        (Inr ([], Map.empty), s\<lparr>buffer := if rows w = [] then None else Some w\<rparr>) \<and>
     flush (snd (transform nbytes s t)) =
        ((if rows w = [] then [] else [w], Map.empty), s\<lparr>buffer := None\<rparr>)"
proof -
  have t: "transform nbytes s t =
        (Inr ([], Map.empty), s\<lparr>buffer := if rows w = [] then None else Some w\<rparr>)"
    using assms(1,2) float_le_not_lt[OF assms(3)] by (intro transform_byte_small) simp_all
  show ?thesis by (simp add: t flush_def)
qed

text \<open>An instance: two rows of size 4 under a budget of 10.\<close>

theorem byte_mode_under_limit_witness:
  "transform (\<lambda>t. sum_list (rows t))
      \<lparr>max_rows_per_table = 0, max_bytes_per_table = Finite 10, buffer = None\<rparr>
      \<lparr>schema = (), rows = [4, 4 :: nat]\<rparr> =
     (Inr ([], Map.empty),
      \<lparr>max_rows_per_table = 0, max_bytes_per_table = Finite 10,
       buffer = Some \<lparr>schema = (), rows = [4, 4]\<rparr>\<rparr>) \<and>
   flush (snd (transform (\<lambda>t. sum_list (rows t))
      \<lparr>max_rows_per_table = 0, max_bytes_per_table = Finite 10, buffer = None\<rparr>
      \<lparr>schema = (), rows = [4, 4 :: nat]\<rparr>)) =
     (([\<lparr>schema = (), rows = [4, 4]\<rparr>], Map.empty),
      \<lparr>max_rows_per_table = 0, max_bytes_per_table = Finite 10, buffer = None\<rparr>)"
proof -
  let ?s = "\<lparr>max_rows_per_table = 0, max_bytes_per_table = Finite 10,
             buffer = (None :: (unit, nat) table option)\<rparr>"
  let ?t = "\<lparr>schema = (), rows = [4, 4 :: nat]\<rparr>"
  have a: "\<not> 0 < max_rows_per_table ?s" by simp
  have b: "merge_buffer ?s ?t = Inr ?t" by (simp add: merge_buffer_def)
  have c: "float_le (Finite (real (sum_list (rows ?t)))) (max_bytes_per_table ?s)" by simp
  note r = byte_mode_under_limit[where nbytes = "\<lambda>t. sum_list (rows t)", OF a b c]
  have t: "transform (\<lambda>t. sum_list (rows t)) ?s ?t =
      (Inr ([], Map.empty), ?s\<lparr>buffer := Some ?t\<rparr>)"
    using r[THEN conjunct1] by simp
  have f: "flush (snd (transform (\<lambda>t. sum_list (rows t)) ?s ?t)) =
      (([?t], Map.empty), ?s\<lparr>buffer := None\<rparr>)"
    using r[THEN conjunct2] by simp
  show ?thesis
    by (rule conjI) (simp only: t, simp, simp only: f, simp)
qed

text \<open>
  Claim C6 as stated fails on a batch without rows: its size estimate is within the
  budget, but the batch does not become the buffer and \<open>flush\<close> does not return it.
\<close>

theorem byte_mode_empty_batch_counterexample:
  "\<not> 0 < max_rows_per_table
       \<lparr>max_rows_per_table = 0, max_bytes_per_table = Finite 10,
        buffer = (None :: (unit, nat) table option)\<rparr> \<and>
   merge_buffer \<lparr>max_rows_per_table = 0, max_bytes_per_table = Finite 10, buffer = None\<rparr>
      \<lparr>schema = (), rows = ([] :: nat list)\<rparr> = Inr \<lparr>schema = (), rows = []\<rparr> \<and>
   float_le (Finite (real (sum_list (rows \<lparr>schema = (), rows = ([] :: nat list)\<rparr>))))
     (Finite 10) \<and>
   buffer (snd (transform (\<lambda>t. sum_list (rows t))
      \<lparr>max_rows_per_table = 0, max_bytes_per_table = Finite 10, buffer = None\<rparr>
      \<lparr>schema = (), rows = ([] :: nat list)\<rparr>)) \<noteq> Some \<lparr>schema = (), rows = []\<rparr> \<and>
   fst (fst (flush (snd (transform (\<lambda>t. sum_list (rows t))
      \<lparr>max_rows_per_table = 0, max_bytes_per_table = Finite 10, buffer = None\<rparr>
      \<lparr>schema = (), rows = ([] :: nat list)\<rparr>)))) \<noteq> [\<lparr>schema = (), rows = []\<rparr>]"
  by (simp add: merge_buffer_def transform_def split_bytes_def num_rows_def flush_def)

lemma rows_map_update: "map rows (map (\<lambda>c. w\<lparr>rows := c\<rparr>) outs) = outs"
  by (induction outs) simp_all

text \<open>
  Claim C9. In byte-budget mode, after a \<open>transform\<close> call whose concatenation succeeds
  with a working batch \<open>w\<close> of at least one row, the buffer holds at least one row; the
  rows returned followed by the rows buffered are the rows of \<open>w\<close>, so the last row of
  \<open>w\<close> is the last buffered row and is in no batch returned by this call.
\<close>

theorem byte_mode_keeps_last_row:
  assumes "\<not> 0 < max_rows_per_table s" and "merge_buffer s t = Inr w" and "rows w \<noteq> []"
  shows "\<exists>outs b s'. transform nbytes s t = (Inr (outs, Map.empty), s') \<and>
     buffer s' = Some b \<and> rows b \<noteq> [] \<and>
     concat (map rows outs) @ rows b = rows w \<and> last (rows b) = last (rows w)"
proof (cases "float_lt (max_bytes_per_table s) (Finite (real (nbytes w)))")
  case True
  obtain outs rest where sc:
    "scan_chunks (\<lambda>r. real (nbytes (w\<lparr>rows := [r]\<rparr>))) (max_bytes_per_table s) [] 0 (rows w) =
       (outs, rest)"
    by (cases "scan_chunks (\<lambda>r. real (nbytes (w\<lparr>rows := [r]\<rparr>))) (max_bytes_per_table s) [] 0
          (rows w)")
  have ne: "rest \<noteq> []" using scan_chunks_rest[OF sc] assms(3) by simp
  have cc: "concat outs @ rest = rows w" using scan_chunks_concat[OF sc] by simp
  have la: "last rest = last (rows w)" using ne by (subst cc[symmetric]) simp
  have "transform nbytes s t =
     (Inr (map (\<lambda>c. w\<lparr>rows := c\<rparr>) outs, Map.empty), s\<lparr>buffer := Some (w\<lparr>rows := rest\<rparr>)\<rparr>)"
    using transform_byte_mode[where nbytes = nbytes, OF assms(1,2) True sc] ne by simp
  moreover have "buffer (s\<lparr>buffer := Some (w\<lparr>rows := rest\<rparr>)\<rparr>) = Some (w\<lparr>rows := rest\<rparr>)" by simp
  moreover have "rows (w\<lparr>rows := rest\<rparr>) \<noteq> []" using ne by simp
  moreover have "concat (map rows (map (\<lambda>c. w\<lparr>rows := c\<rparr>) outs)) @ rows (w\<lparr>rows := rest\<rparr>) = rows w"
    using cc by (simp only: rows_map_update) simp
  moreover have "last (rows (w\<lparr>rows := rest\<rparr>)) = last (rows w)" using la by simp
  ultimately show ?thesis by blast
next
  case False
  have "transform nbytes s t = (Inr ([], Map.empty), s\<lparr>buffer := Some w\<rparr>)"
    using transform_byte_small[where nbytes = nbytes, OF assms(1,2) False] assms(3) by simp
  moreover have "buffer (s\<lparr>buffer := Some w\<rparr>) = Some w" by simp
  moreover have "concat (map rows []) @ rows w = rows w" by simp
  ultimately show ?thesis using assms(3) by blast
qed

text \<open>An instance: the last row, of size 1, stays in the buffer.\<close>

theorem byte_mode_keeps_last_row_witness:
  "\<exists>outs b s'. transform (\<lambda>t. sum_list (rows t))
      \<lparr>max_rows_per_table = 0, max_bytes_per_table = Finite 10, buffer = None\<rparr>
      \<lparr>schema = (), rows = [4, 4, 4, 4, 4, 1 :: nat]\<rparr> = (Inr (outs, Map.empty), s') \<and>
     buffer s' = Some b \<and> rows b \<noteq> [] \<and>
     concat (map rows outs) @ rows b = [4, 4, 4, 4, 4, 1] \<and> last (rows b) = 1"
proof -
  let ?s = "\<lparr>max_rows_per_table = 0, max_bytes_per_table = Finite 10,
             buffer = (None :: (unit, nat) table option)\<rparr>"
  let ?t = "\<lparr>schema = (), rows = [4, 4, 4, 4, 4, 1 :: nat]\<rparr>"
  have a: "\<not> 0 < max_rows_per_table ?s" by simp
  have b: "merge_buffer ?s ?t = Inr ?t" by (simp add: merge_buffer_def)
  have c: "rows ?t \<noteq> []" by simp
  show ?thesis
    using byte_mode_keeps_last_row[where nbytes = "\<lambda>t. sum_list (rows t)", OF a b c] by simp
qed

text \<open>
  Claim C10. In byte-budget mode, when the size estimate of the working batch exceeds the
  budget and so does the single-row estimate of its first row, the first batch returned by
  \<open>transform\<close> has no rows.
\<close>

theorem byte_mode_zero_row_output:
  assumes "\<not> 0 < max_rows_per_table s" and "merge_buffer s t = Inr w"
    and "float_lt (max_bytes_per_table s) (Finite (real (nbytes w)))" and "rows w \<noteq> []"
    and "float_lt (max_bytes_per_table s) (Finite (real (nbytes (slice w 0 1))))"
  shows "\<exists>outs s'. transform nbytes s t = (Inr (outs, Map.empty), s') \<and>
     outs \<noteq> [] \<and> num_rows (hd outs) = 0"
proof -
  obtain r rs where rw: "rows w = r # rs" using assms(4) by (cases "rows w") auto
  have s1: "slice w 0 1 = w\<lparr>rows := [r]\<rparr>" by (simp add: slice_def rw)
  obtain outs rest where sc:
    "scan_chunks (\<lambda>r. real (nbytes (w\<lparr>rows := [r]\<rparr>))) (max_bytes_per_table s) [r] 0 rs =
       (outs, rest)"
    by (cases "scan_chunks (\<lambda>r. real (nbytes (w\<lparr>rows := [r]\<rparr>))) (max_bytes_per_table s) [r] 0 rs")
  have sc0: "scan_chunks (\<lambda>r. real (nbytes (w\<lparr>rows := [r]\<rparr>))) (max_bytes_per_table s) [] 0
      (rows w) = ([] # outs, rest)"
    using assms(5) sc by (simp add: rw s1)
  have "transform nbytes s t =
     (Inr (w\<lparr>rows := []\<rparr> # map (\<lambda>c. w\<lparr>rows := c\<rparr>) outs, Map.empty),
      s\<lparr>buffer := if rest = [] then None else Some (w\<lparr>rows := rest\<rparr>)\<rparr>)"
    using transform_byte_mode[where nbytes = nbytes, OF assms(1,2,3) sc0] by simp
  moreover have "num_rows (hd (w\<lparr>rows := []\<rparr> # map (\<lambda>c. w\<lparr>rows := c\<rparr>) outs)) = 0"
    by (simp add: num_rows_def)
  ultimately show ?thesis by blast
qed

text \<open>
  Such an input exists: rows of sizes 20 and 3 under a budget of 10.
\<close>

theorem byte_mode_zero_row_output_witness:
  "\<exists>outs s'. transform (\<lambda>t. sum_list (rows t))
      \<lparr>max_rows_per_table = 0, max_bytes_per_table = Finite 10, buffer = None\<rparr>
      \<lparr>schema = (), rows = [20, 3 :: nat]\<rparr> = (Inr (outs, Map.empty), s') \<and>
     outs \<noteq> [] \<and> num_rows (hd outs) = 0"
proof -
  let ?s = "\<lparr>max_rows_per_table = 0, max_bytes_per_table = Finite 10,
             buffer = (None :: (unit, nat) table option)\<rparr>"
  let ?t = "\<lparr>schema = (), rows = [20, 3 :: nat]\<rparr>"
  have a: "\<not> 0 < max_rows_per_table ?s" by simp
  have b: "merge_buffer ?s ?t = Inr ?t" by (simp add: merge_buffer_def)
  have c: "float_lt (max_bytes_per_table ?s) (Finite (real (sum_list (rows ?t))))" by simp
  have d: "rows ?t \<noteq> []" by simp
  have e: "float_lt (max_bytes_per_table ?s) (Finite (real (sum_list (rows (slice ?t 0 1)))))"
    by (simp add: slice_def)
  show ?thesis
    by (rule byte_mode_zero_row_output[where nbytes = "\<lambda>t. sum_list (rows t)", OF a b c d e])
qed

section \<open>Row order across a partition\<close>

lemma row_mode_state:
  assumes R: "0 < max_rows_per_table s" and m: "merge_buffer s t = Inr w"
  shows "max_rows_per_table (snd (transform nbytes s t)) = max_rows_per_table s \<and>
     (case buffer (snd (transform nbytes s t)) of None \<Rightarrow> True | Some b \<Rightarrow> schema b = schema w)"
  by (simp add: transform_row_mode[OF R m])

lemma merge_buffer_same_schema:
  assumes "case buffer s of None \<Rightarrow> True | Some b \<Rightarrow> schema b = schema t"
  shows "\<exists>w. merge_buffer s t = Inr w \<and> rows w = buffered_rows s @ rows t \<and> schema w = schema t"
  using assms by (cases "buffer s") (simp_all add: merge_buffer_def concat_tables_def buffered_rows_def)

lemma feed_row_mode:
  assumes "0 < max_rows_per_table s"
    and "case buffer s of None \<Rightarrow> True | Some b \<Rightarrow> schema b = sc"
    and "\<forall>t \<in> set ts. schema t = sc"
  shows "\<exists>outs s'. feed nbytes s ts = (([], outs), s') \<and>
     concat (map rows outs) @ buffered_rows s' = buffered_rows s @ concat (map rows ts)"
  using assms
proof (induction ts arbitrary: s)
  case Nil
  then show ?case by simp
next
  case (Cons t ts)
  have st: "schema t = sc" using Cons.prems(3) by simp
  from Cons.prems(2) st have "case buffer s of None \<Rightarrow> True | Some b \<Rightarrow> schema b = schema t"
    by (simp split: option.splits)
  from merge_buffer_same_schema[OF this] obtain w where
    w: "merge_buffer s t = Inr w" "rows w = buffered_rows s @ rows t" "schema w = schema t"
    by blast
  from row_mode_split_props[OF Cons.prems(1) w(1), of nbytes] obtain outs1 s1 where
    t1: "transform nbytes s t = (Inr (outs1, Map.empty), s1)" and
    c1: "concat (map rows outs1) @ buffered_rows s1 = rows w"
    by blast
  from row_mode_state[OF Cons.prems(1) w(1), of nbytes] t1 w(3) st have
    i1: "0 < max_rows_per_table s1" "case buffer s1 of None \<Rightarrow> True | Some b \<Rightarrow> schema b = sc"
    using Cons.prems(1) by (auto split: option.splits)
  from Cons.IH[OF i1] Cons.prems(3) obtain outs2 s2 where
    f2: "feed nbytes s1 ts = (([], outs2), s2)" and
    c2: "concat (map rows outs2) @ buffered_rows s2 = buffered_rows s1 @ concat (map rows ts)"
    by auto
  have "feed nbytes s (t # ts) = (([], outs1 @ outs2), s2)"
    by (simp add: t1 f2)
  moreover have "concat (map rows (outs1 @ outs2)) @ buffered_rows s2 =
      buffered_rows s @ concat (map rows (t # ts))"
    using c1 c2 w(2) by (metis append.assoc concat.simps(2) concat_append list.simps(9) map_append)
  ultimately show ?case by blast
qed

text \<open>
  Claim C1. In row-budget mode, for an instance that starts without a buffer and any
  sequence of input batches of one schema, no call fails, and the rows of the batches
  returned by all \<open>transform\<close> calls followed by those returned by the final \<open>flush\<close> are
  exactly the rows of the input batches, in arrival order: none lost, none duplicated.
\<close>

theorem row_mode_preserves_rows:
  assumes "0 < max_rows_per_table s" and "buffer s = None" and "\<forall>t \<in> set ts. schema t = sc"
  shows "\<exists>outs. process_partition nbytes s ts = ([], outs) \<and>
     concat (map rows outs) = concat (map rows ts)"
proof -
  have "case buffer s of None \<Rightarrow> True | Some b \<Rightarrow> schema b = sc" using assms(2) by simp
  from feed_row_mode[OF assms(1) this assms(3), of nbytes] obtain outs s' where
    f: "feed nbytes s ts = (([], outs), s')" and
    c: "concat (map rows outs) @ buffered_rows s' = buffered_rows s @ concat (map rows ts)"
    by blast
  have fl: "concat (map rows (fst (fst (flush s')))) = buffered_rows s'"
    by (cases "buffer s'") (simp_all add: flush_def buffered_rows_def)
  have "process_partition nbytes s ts = ([], outs @ fst (fst (flush s')))"
    by (simp add: process_partition_def f)
  moreover have "concat (map rows (outs @ fst (fst (flush s')))) = concat (map rows ts)"
    using c fl assms(2) by (simp add: buffered_rows_def)
  ultimately show ?thesis by blast
qed

text \<open>
  An instance: batches of three and two rows under a limit of 2.
\<close>

theorem row_mode_preserves_rows_witness:
  "\<exists>outs. process_partition (\<lambda>_. 0)
       \<lparr>max_rows_per_table = 2, max_bytes_per_table = Finite 0, buffer = None\<rparr>
       [\<lparr>schema = ''a'', rows = [1, 2, 3 :: nat]\<rparr>, \<lparr>schema = ''a'', rows = [4, 5]\<rparr>] = ([], outs) \<and>
     concat (map rows outs) = [1, 2, 3, 4, 5]"
proof -
  let ?s = "\<lparr>max_rows_per_table = 2, max_bytes_per_table = Finite 0,
             buffer = (None :: (string, nat) table option)\<rparr>"
  let ?ts = "[\<lparr>schema = ''a'', rows = [1, 2, 3 :: nat]\<rparr>, \<lparr>schema = ''a'', rows = [4, 5]\<rparr>]"
  have a: "0 < max_rows_per_table ?s" by simp
  have b: "buffer ?s = None" by simp
  have c: "\<forall>t \<in> set ?ts. schema t = ''a''" by simp
  show ?thesis
    using row_mode_preserves_rows[where nbytes = "\<lambda>_. 0", OF a b c] by simp
qed

end
